theory Spec2Isabelle
  imports Complex_Main "HOL-Library.Stream" "HOL-Library.Multiset"
begin

section \<open>The village of warriors (ABMexample.ipynb, class17.ipynb)\<close>

text \<open>
  Both notebooks hold the same two classes, \<^verbatim>\<open>Warrior\<close> and \<^verbatim>\<open>Village\<close>.
  The Python objects are mutated in place and one warrior can reach another
  through \<^verbatim>\<open>self.model.schedule.agents\<close>, so the agents live in an explicit
  store: the list behind \<^verbatim>\<open>schedule.agents\<close>, in insertion order, and an object
  reference is a position in that list. \<^verbatim>\<open>self\<close> and \<^verbatim>\<open>other\<close> are positions,
  and may be the same position.
\<close>

subsection \<open>Errors and the random source\<close>

datatype error = TypeError | ValueError

text \<open>
  The code draws from numpy's global generator. Here the generator is an
  explicit value that every drawing function takes and returns: the results
  of the successive \<^verbatim>\<open>np.random.uniform(0, 1)\<close> calls, and the raw integers
  behind the integer-valued draws, each reduced to the range that the numpy
  call is documented to return.

  A uniform draw is a double, taken here as the real number it denotes. The
  constants \<^verbatim>\<open>.8\<close> and \<^verbatim>\<open>.85\<close> of the code are the doubles nearest to 0.8 (just
  above it) and to 0.85 (just below it); no double lies between either
  constant and its decimal value, so \<open>u \<ge> 0.8\<close> and \<open>v > 0.85\<close> over the reals
  decide every draw as the float comparisons do.
\<close>

record rng =
  uniforms :: "real stream"
  integers :: "nat stream"

definition uniform :: "rng \<Rightarrow> real \<times> rng" where
  "uniform g = (shd (uniforms g), g\<lparr>uniforms := stl (uniforms g)\<rparr>)"

text \<open>\<^verbatim>\<open>np.random.randint(low, high)\<close>: an integer in \<open>[low, high)\<close>, for \<open>low < high\<close>.\<close>

definition randint :: "int \<Rightarrow> int \<Rightarrow> rng \<Rightarrow> int \<times> rng" where
  "randint low high g =
     (low + int (shd (integers g)) mod (high - low), g\<lparr>integers := stl (integers g)\<rparr>)"

text \<open>
  \<^verbatim>\<open>np.random.choice(a)\<close> on a list: one element of \<open>a\<close>, ValueError when
  \<open>a\<close> is empty. The element is returned as its position in \<open>a\<close>.
\<close>

definition choice :: "'a list \<Rightarrow> rng \<Rightarrow> error + (nat \<times> rng)" where
  "choice a g =
     (if a = [] then Inl ValueError
      else Inr (shd (integers g) mod length a, g\<lparr>integers := stl (integers g)\<rparr>))"

subsection \<open>Warrior\<close>

text \<open>
  \<^verbatim>\<open>self.id\<close>, \<^verbatim>\<open>self.xp\<close>, \<^verbatim>\<open>self.strength\<close>. The xp is a Python float after
  the first update (it starts as the integer 1); it is a real number here.
  Every value it takes is an integer, on which float addition of 1.0 and 2.0
  is exact below \<open>2^53\<close>.
\<close>

record warrior =
  id_key :: int
  xp :: real
  strength :: int

definition Warrior_init :: "int \<Rightarrow> rng \<Rightarrow> warrior \<times> rng" where
  "Warrior_init key g =
     (let (s, g') = randint 1 10 g
      in (\<lparr>id_key = key, xp = 1, strength = s\<rparr>, g'))"

text \<open>The in-place updates \<^verbatim>\<open>w.xp += d\<close>, \<^verbatim>\<open>w.xp -= d\<close>, \<^verbatim>\<open>w.strength += d\<close>
  on the warrior at position \<open>i\<close> of the store.\<close>

definition xp_add :: "nat \<Rightarrow> real \<Rightarrow> warrior list \<Rightarrow> warrior list" where
  "xp_add i d agents = agents[i := (agents ! i)\<lparr>xp := xp (agents ! i) + d\<rparr>]"

definition xp_sub :: "nat \<Rightarrow> real \<Rightarrow> warrior list \<Rightarrow> warrior list" where
  "xp_sub i d agents = agents[i := (agents ! i)\<lparr>xp := xp (agents ! i) - d\<rparr>]"

definition strength_add :: "nat \<Rightarrow> int \<Rightarrow> warrior list \<Rightarrow> warrior list" where
  "strength_add i d agents =
     agents[i := (agents ! i)\<lparr>strength := strength (agents ! i) + d\<rparr>]"

text \<open>
  \<^verbatim>\<open>Warrior.step\<close>, first half: the hunt.
  \<^verbatim>\<open>
  is_hunt_success = np.random.uniform(0, 1) >= .8
  if is_hunt_success:
      self.xp += 2.
      self.strength += 3
  \<close>
\<close>

definition hunt :: "nat \<Rightarrow> rng \<times> warrior list \<Rightarrow> rng \<times> warrior list" where
  "hunt self st =
     (let (g, agents) = st;
          (u, g1) = uniform g;
          is_hunt_success = (u \<ge> 0.8)
      in if is_hunt_success
         then (g1, strength_add self 3 (xp_add self 2 agents))
         else (g1, agents))"

text \<open>
  \<^verbatim>\<open>Warrior.step\<close>, second half: the strength test.
  \<^verbatim>\<open>
  do_wrestle = np.random.uniform(0, 1) > .85
  if do_wrestle:
      other = np.random.choice(self.model.schedule.agents)
      if self.strength < other.strength:
          self.xp -= 2.
          other.xp += 1.
      else:
          other.xp -= 2.
          self.xp += 1.
  \<close>
\<close>

definition wrestle :: "nat \<Rightarrow> rng \<times> warrior list \<Rightarrow> error + (rng \<times> warrior list)" where
  "wrestle self st =
     (let (g, agents) = st;
          (v, g1) = uniform g;
          do_wrestle = (v > 0.85)
      in if do_wrestle then
           (case choice agents g1 of
              Inl e \<Rightarrow> Inl e
            | Inr (other, g2) \<Rightarrow>
                if strength (agents ! self) < strength (agents ! other)
                then Inr (g2, xp_add other 1 (xp_sub self 2 agents))
                else Inr (g2, xp_add self 1 (xp_sub other 2 agents)))
         else Inr (g1, agents))"

definition Warrior_step :: "nat \<Rightarrow> rng \<times> warrior list \<Rightarrow> error + (rng \<times> warrior list)" where
  "Warrior_step self st = wrestle self (hunt self st)"

subsection \<open>Village\<close>

text \<open>
  The argument of \<^verbatim>\<open>Village(n)\<close> is whatever the caller passes. \<^verbatim>\<open>range(n)\<close>
  accepts an integer of either sign (a negative one gives the empty range)
  and raises TypeError on a float.
\<close>

datatype pyval = PyInt int | PyFloat real

definition range_py :: "pyval \<Rightarrow> error + int list" where
  "range_py n = (case n of PyInt k \<Rightarrow> Inr [0..k - 1] | PyFloat x \<Rightarrow> Inl TypeError)"

record village =
  num_agents :: pyval
  schedule :: "warrior list"

text \<open>
  The loop of \<^verbatim>\<open>Village.__init__\<close>:
  \<^verbatim>\<open>
  for i in range(self.num_agents):
      agent = Warrior(i, self)
      self.schedule.add(agent)
  \<close>
\<close>

fun add_warriors :: "int list \<Rightarrow> rng \<times> warrior list \<Rightarrow> rng \<times> warrior list" where
  "add_warriors [] st = st"
| "add_warriors (i # rest) (g, agents) =
     (let (agent, g') = Warrior_init i g
      in add_warriors rest (g', agents @ [agent]))"

definition Village_init :: "pyval \<Rightarrow> rng \<Rightarrow> error + (rng \<times> village)" where
  "Village_init n g =
     (case range_py n of
        Inl e \<Rightarrow> Inl e
      | Inr keys \<Rightarrow>
          (let (g', agents) = add_warriors keys (g, [])
           in Inr (g', \<lparr>num_agents = n, schedule = agents\<rparr>)))"

subsection \<open>The scheduler\<close>

text \<open>
  The random source's permutation of a list, as Python's \<^verbatim>\<open>random.shuffle\<close>
  computes it: walk the positions from the last one down to 1 and swap each
  with a position drawn at or below it,
  \<^verbatim>\<open>j = randbelow(i + 1); x[i], x[j] = x[j], x[i]\<close>.
\<close>

definition randbelow :: "nat \<Rightarrow> rng \<Rightarrow> nat \<times> rng" where
  "randbelow n g = (shd (integers g) mod n, g\<lparr>integers := stl (integers g)\<rparr>)"

fun shuffle_loop :: "nat \<Rightarrow> 'a list \<Rightarrow> rng \<Rightarrow> 'a list \<times> rng" where
  "shuffle_loop 0 x g = (x, g)"
| "shuffle_loop (Suc i) x g =
     (let (j, g') = randbelow (Suc (Suc i)) g
      in shuffle_loop i (x[Suc i := x ! j, j := x ! Suc i]) g')"

definition shuffle :: "'a list \<Rightarrow> rng \<Rightarrow> 'a list \<times> rng" where
  "shuffle x g = shuffle_loop (length x - 1) x g"

text \<open>The turns of the agents at the given positions, one after the other;
  an exception in one turn ends the pass.\<close>

fun activate :: "nat list \<Rightarrow> rng \<times> warrior list \<Rightarrow> error + (rng \<times> warrior list)" where
  "activate [] st = Inr st"
| "activate (k # ks) st =
     (case Warrior_step k st of Inl e \<Rightarrow> Inl e | Inr st' \<Rightarrow> activate ks st')"

text \<open>
  Modelled from the spec: \<^verbatim>\<open>RandomActivation.step\<close> belongs to the mesa
  library and is not among the sources. Section 4.3: advancing one tick
  (1) computes a random permutation of all agents currently in the registry,
  (2) invokes each agent's turn logic exactly once in that permuted order.
  \<open>activation_order\<close> is step (1), \<open>RandomActivation_step\<close> is the tick.
\<close>

definition activation_order :: "rng \<times> warrior list \<Rightarrow> nat list \<times> rng" where
  "activation_order st = (let (g, agents) = st in shuffle [0..<length agents] g)"

definition RandomActivation_step :: "rng \<times> warrior list \<Rightarrow> error + (rng \<times> warrior list)" where
  "RandomActivation_step st =
     (let (order, g') = activation_order st
      in activate order (g', snd st))"

text \<open>\<^verbatim>\<open>Village.step\<close>: \<^verbatim>\<open>self.schedule.step()\<close>.\<close>

definition Village_step :: "rng \<times> village \<Rightarrow> error + (rng \<times> village)" where
  "Village_step st =
     (let (g, v) = st
      in case RandomActivation_step (g, schedule v) of
           Inl e \<Rightarrow> Inl e
         | Inr (g', agents) \<Rightarrow> Inr (g', v\<lparr>schedule := agents\<rparr>))"

text \<open>
  The driver cell: \<^verbatim>\<open>for i in range(T): model.step()\<close>, then the read-out
  \<^verbatim>\<open>list(map(lambda x: (x.xp, x.strength), model.schedule.agents))\<close>.
\<close>

fun run :: "nat \<Rightarrow> rng \<times> village \<Rightarrow> error + (rng \<times> village)" where
  "run 0 st = Inr st"
| "run (Suc t) st =
     (case Village_step st of Inl e \<Rightarrow> Inl e | Inr st' \<Rightarrow> run t st')"

definition readout :: "village \<Rightarrow> (real \<times> int) list" where
  "readout v = map (\<lambda>x. (xp x, strength x)) (schedule v)"

definition simulate :: "pyval \<Rightarrow> nat \<Rightarrow> rng \<Rightarrow> error + (real \<times> int) list" where
  "simulate n T g =
     (case Village_init n g of
        Inl e \<Rightarrow> Inl e
      | Inr st \<Rightarrow>
          (case run T st of Inl e \<Rightarrow> Inl e | Inr (g', v) \<Rightarrow> Inr (readout v)))"

subsection \<open>Observations used in the statements\<close>

text \<open>The sum of xp over the population.\<close>

definition total_xp :: "warrior list \<Rightarrow> real" where
  "total_xp agents = sum_list (map xp agents)"

section \<open>Properties\<close>

subsection \<open>The in-place updates\<close>

lemma length_xp_add [simp]: "length (xp_add i d agents) = length agents"
  by (simp add: xp_add_def)

lemma length_xp_sub [simp]: "length (xp_sub i d agents) = length agents"
  by (simp add: xp_sub_def)

lemma length_strength_add [simp]: "length (strength_add i d agents) = length agents"
  by (simp add: strength_add_def)

lemma nth_xp_add:
  "k < length agents \<Longrightarrow>
   xp_add i d agents ! k = (if k = i then (agents ! i)\<lparr>xp := xp (agents ! i) + d\<rparr> else agents ! k)"
  by (simp add: xp_add_def nth_list_update)

lemma nth_xp_sub:
  "k < length agents \<Longrightarrow>
   xp_sub i d agents ! k = (if k = i then (agents ! i)\<lparr>xp := xp (agents ! i) - d\<rparr> else agents ! k)"
  by (simp add: xp_sub_def nth_list_update)

lemma nth_strength_add:
  "k < length agents \<Longrightarrow>
   strength_add i d agents ! k =
     (if k = i then (agents ! i)\<lparr>strength := strength (agents ! i) + d\<rparr> else agents ! k)"
  by (simp add: strength_add_def nth_list_update)

subsection \<open>The hunt\<close>

lemma hunt_eq:
  "hunt self (g, agents) =
     (snd (uniform g),
      if fst (uniform g) \<ge> 0.8 then strength_add self 3 (xp_add self 2 agents) else agents)"
  by (simp add: hunt_def Let_def split: prod.splits)

lemma length_hunt [simp]: "length (snd (hunt self (g, agents))) = length agents"
  by (simp add: hunt_eq)

lemma hunt_store:
  "strength_add self 3 (xp_add self 2 agents) =
     agents[self := (agents ! self)\<lparr>xp := xp (agents ! self) + 2,
                                     strength := strength (agents ! self) + 3\<rparr>]"
  by (cases "self < length agents")
    (simp_all add: strength_add_def xp_add_def list_update_beyond)

text \<open>
  Claim C2. In every activation of the agent at position \<open>self\<close>, with \<open>u\<close> the
  first uniform draw of the turn: the hunt succeeds exactly when \<open>u \<ge> 0.8\<close>,
  and then the agent's xp grows by 2 and its strength by 3, all else in the
  store staying as it was; when \<open>u < 0.8\<close> the hunt leaves the store as it
  was. When moreover the second draw \<open>v\<close> does not start a wrestle
  (\<open>v \<le> 0.85\<close>), that is the whole effect of the turn, which returns normally.
\<close>

theorem hunt_effect:
  assumes "uniform g = (u, g1)" and "uniform g1 = (v, g2)"
  shows "hunt self (g, agents) =
           (g1, if u \<ge> 0.8
                then agents[self := (agents ! self)\<lparr>xp := xp (agents ! self) + 2,
                                                strength := strength (agents ! self) + 3\<rparr>]
                else agents)
         \<and> (\<not> v > 0.85 \<longrightarrow>
              Warrior_step self (g, agents) =
                Inr (g2, if u \<ge> 0.8
                         then agents[self := (agents ! self)\<lparr>xp := xp (agents ! self) + 2,
                                                strength := strength (agents ! self) + 3\<rparr>]
                         else agents))"
  using assms by (simp add: hunt_eq hunt_store Warrior_step_def wrestle_def)

text \<open>The hunt-only scenario of the specification: xp 1 and strength 5,
  \<open>u = 0.9\<close>, \<open>v = 0.5\<close>; the agent ends with xp 3 and strength 8 and the
  other agent is as before.\<close>

theorem hunt_effect_witness:
  "uniform \<lparr>uniforms = 0.9 ## 0.5 ## sconst 0, integers = sconst 0\<rparr>
     = (0.9, \<lparr>uniforms = 0.5 ## sconst 0, integers = sconst 0\<rparr>)
   \<and> uniform \<lparr>uniforms = 0.5 ## sconst 0, integers = sconst 0\<rparr>
     = (0.5, \<lparr>uniforms = sconst 0, integers = sconst 0\<rparr>)
   \<and> \<not> (0.5 :: real) > 0.85
   \<and> Warrior_step 0 (\<lparr>uniforms = 0.9 ## 0.5 ## sconst 0, integers = sconst 0\<rparr>,
         [\<lparr>id_key = 0, xp = 1, strength = 5\<rparr>, \<lparr>id_key = 1, xp = 1, strength = 7\<rparr>])
     = Inr (\<lparr>uniforms = sconst 0, integers = sconst 0\<rparr>,
         [\<lparr>id_key = 0, xp = 3, strength = 8\<rparr>, \<lparr>id_key = 1, xp = 1, strength = 7\<rparr>])"
proof -
  have h1: "uniform \<lparr>uniforms = 0.9 ## 0.5 ## sconst 0, integers = sconst 0\<rparr>
     = (0.9, \<lparr>uniforms = 0.5 ## sconst 0, integers = sconst 0\<rparr>)"
    by (simp add: uniform_def)
  have h2: "uniform \<lparr>uniforms = 0.5 ## sconst 0, integers = sconst 0\<rparr>
     = (0.5, \<lparr>uniforms = sconst 0, integers = sconst 0\<rparr>)"
    by (simp add: uniform_def)
  show ?thesis
    using h1 h2
      hunt_effect [OF h1 h2, of 0 "[\<lparr>id_key = 0, xp = 1, strength = 5\<rparr>, \<lparr>id_key = 1, xp = 1, strength = 7\<rparr>]"]
    by simp
qed

subsection \<open>The strength test\<close>

lemma choice_Inr:
  "choice a g = Inr (other, g') \<Longrightarrow> other < length a \<and> a \<noteq> []"
  by (auto simp: choice_def split: if_splits)

lemma choice_nonempty:
  "a \<noteq> [] \<Longrightarrow>
   choice a g = Inr (shd (integers g) mod length a, g\<lparr>integers := stl (integers g)\<rparr>)"
  by (simp add: choice_def)

lemma wrestle_fires:
  assumes "uniform g = (v, g1)" and "v > 0.85" and "choice agents g1 = Inr (other, g2)"
  shows "wrestle self (g, agents) =
           Inr (g2, if strength (agents ! self) < strength (agents ! other)
                    then xp_add other 1 (xp_sub self 2 agents)
                    else xp_add self 1 (xp_sub other 2 agents))"
  using assms by (simp add: wrestle_def)

lemma wrestle_idle:
  assumes "uniform g = (v, g1)" and "\<not> v > 0.85"
  shows "wrestle self (g, agents) = Inr (g1, agents)"
  using assms by (simp add: wrestle_def)

lemma hunt_length:
  "hunt self (g, agents) = (g1, agents1) \<Longrightarrow> length agents1 = length agents"
  using length_hunt [of self g agents] by simp

text \<open>
  Claim C1. In every activation in which the wrestle fires (\<open>v > 0.85\<close>), with
  \<open>agents1\<close> the store as the hunt left it and \<open>other\<close> the position picked:
  the turn returns normally; if the acting agent's strength is less than the
  opponent's, the acting agent's xp goes down by 2 and the opponent's up by 1;
  otherwise, also when the strengths are equal, the updates are
  \<^verbatim>\<open>other.xp -= 2.\<close> then \<^verbatim>\<open>self.xp += 1.\<close>, so that the opponent's xp goes
  down by 2 and the acting agent's up by 1. When the pick is the acting agent
  itself, both updates land on its one xp.
\<close>

theorem wrestle_rule:
  assumes "self < length agents"
      and "hunt self (g, agents) = (g1, agents1)"
      and "uniform g1 = (v, g2)" and "v > 0.85"
      and "choice agents1 g2 = Inr (other, g3)"
  shows "\<exists>agents'. Warrior_step self (g, agents) = Inr (g3, agents') \<and>
     (if strength (agents1 ! self) < strength (agents1 ! other)
      then agents' = xp_add other 1 (xp_sub self 2 agents1)
           \<and> xp (agents' ! self) = xp (agents1 ! self) - 2
           \<and> xp (agents' ! other) = xp (agents1 ! other) + 1
      else agents' = xp_add self 1 (xp_sub other 2 agents1)
           \<and> (other \<noteq> self \<longrightarrow> xp (agents' ! other) = xp (agents1 ! other) - 2
                              \<and> xp (agents' ! self) = xp (agents1 ! self) + 1)
           \<and> (other = self \<longrightarrow> xp (agents' ! self) = xp (agents1 ! self) - 2 + 1))"
proof -
  have len: "length agents1 = length agents"
    using assms(2) by (rule hunt_length)
  have o: "other < length agents1"
    using choice_Inr [OF assms(5)] by simp
  have s: "self < length agents1"
    using assms(1) len by simp
  have step: "Warrior_step self (g, agents) =
           Inr (g3, if strength (agents1 ! self) < strength (agents1 ! other)
                    then xp_add other 1 (xp_sub self 2 agents1)
                    else xp_add self 1 (xp_sub other 2 agents1))"
    unfolding Warrior_step_def assms(2)
    using assms(3) assms(4) assms(5) by (rule wrestle_fires)
  show ?thesis
  proof (cases "strength (agents1 ! self) < strength (agents1 ! other)")
    case True
    then have "other \<noteq> self" by auto
    with True step o s show ?thesis
      by (simp add: nth_xp_add nth_xp_sub)
  next
    case False
    with step o s show ?thesis
      by (simp add: nth_xp_add nth_xp_sub)
  qed
qed

text \<open>
  Claim C3. In every activation in which the wrestle fires and the pick is the
  acting agent itself, the turn returns normally (no exception), and its
  effect on the store the hunt left is to lower the acting agent's xp by
  exactly 1; nothing else changes.
\<close>

theorem self_contest:
  assumes "self < length agents"
      and "hunt self (g, agents) = (g1, agents1)"
      and "uniform g1 = (v, g2)" and "v > 0.85"
      and "choice agents1 g2 = Inr (self, g3)"
  shows "Warrior_step self (g, agents) =
           Inr (g3, agents1[self := (agents1 ! self)\<lparr>xp := xp (agents1 ! self) - 1\<rparr>])"
proof -
  have s: "self < length agents1"
    using assms(1) hunt_length [OF assms(2)] by simp
  have "Warrior_step self (g, agents) =
           Inr (g3, if strength (agents1 ! self) < strength (agents1 ! self)
                    then xp_add self 1 (xp_sub self 2 agents1)
                    else xp_add self 1 (xp_sub self 2 agents1))"
    unfolding Warrior_step_def assms(2)
    using assms(3) assms(4) assms(5) by (rule wrestle_fires)
  moreover have "xp_add self 1 (xp_sub self 2 agents1) =
      agents1[self := (agents1 ! self)\<lparr>xp := xp (agents1 ! self) - 1\<rparr>]"
    using s by (simp add: xp_add_def xp_sub_def)
  ultimately show ?thesis by simp
qed

lemma Warrior_step_total:
  assumes "agents \<noteq> []"
  shows "\<exists>g' agents'. Warrior_step self (g, agents) = Inr (g', agents')
           \<and> length agents' = length agents"
proof -
  obtain g1 agents1 where h: "hunt self (g, agents) = (g1, agents1)"
    by (cases "hunt self (g, agents)")
  then have len: "length agents1 = length agents" by (rule hunt_length)
  with assms have ne: "agents1 \<noteq> []" by auto
  obtain v g2 where u: "uniform g1 = (v, g2)" by (cases "uniform g1")
  show ?thesis
  proof (cases "v > 0.85")
    case True
    from wrestle_fires [OF u True choice_nonempty [OF ne]] h len show ?thesis
      by (simp add: Warrior_step_def)
  next
    case False
    from wrestle_idle [OF u False] h len show ?thesis
      by (simp add: Warrior_step_def)
  qed
qed


text \<open>The tie-break scenario of the specification: equal strengths, the
  acting agent gains 1 and the opponent loses 2.\<close>

theorem wrestle_rule_witness:
  "(0::nat) < length [\<lparr>id_key = 0, xp = 1, strength = 5\<rparr>, \<lparr>id_key = 1, xp = 1, strength = 5\<rparr>]
   \<and> (0.9 :: real) > 0.85
   \<and> Warrior_step 0 (\<lparr>uniforms = 0.5 ## 0.9 ## sconst 0, integers = 1 ## sconst 0\<rparr>,
         [\<lparr>id_key = 0, xp = 1, strength = 5\<rparr>, \<lparr>id_key = 1, xp = 1, strength = 5\<rparr>])
     = Inr (\<lparr>uniforms = sconst 0, integers = sconst 0\<rparr>,
         [\<lparr>id_key = 0, xp = 2, strength = 5\<rparr>, \<lparr>id_key = 1, xp = - 1, strength = 5\<rparr>])"
proof -
  let ?A = "[\<lparr>id_key = 0, xp = 1, strength = 5\<rparr>, \<lparr>id_key = 1, xp = 1, strength = 5\<rparr>]"
  have h0: "(0::nat) < length ?A" by simp
  have h1: "hunt 0 (\<lparr>uniforms = 0.5 ## 0.9 ## sconst 0, integers = 1 ## sconst 0\<rparr>, ?A)
              = (\<lparr>uniforms = 0.9 ## sconst 0, integers = 1 ## sconst 0\<rparr>, ?A)"
    by (simp add: hunt_eq uniform_def)
  have h2: "uniform \<lparr>uniforms = 0.9 ## sconst 0, integers = 1 ## sconst 0\<rparr>
              = (0.9, \<lparr>uniforms = sconst 0, integers = 1 ## sconst 0\<rparr>)"
    by (simp add: uniform_def)
  have h3: "(0.9 :: real) > 0.85" by simp
  have h4: "choice ?A \<lparr>uniforms = sconst 0, integers = 1 ## sconst 0\<rparr>
              = Inr (1, \<lparr>uniforms = sconst 0, integers = sconst 0\<rparr>)"
    by (simp add: choice_def)
  from wrestle_rule [OF h0 h1 h2 h3 h4] h0 h3 show ?thesis
    by (simp add: xp_add_def xp_sub_def)
qed

theorem self_contest_witness:
  "(0::nat) < length [\<lparr>id_key = 0, xp = 1, strength = 5\<rparr>, \<lparr>id_key = 1, xp = 1, strength = 7\<rparr>]
   \<and> (0.9 :: real) > 0.85
   \<and> Warrior_step 0 (\<lparr>uniforms = 0.5 ## 0.9 ## sconst 0, integers = sconst 0\<rparr>,
         [\<lparr>id_key = 0, xp = 1, strength = 5\<rparr>, \<lparr>id_key = 1, xp = 1, strength = 7\<rparr>])
     = Inr (\<lparr>uniforms = sconst 0, integers = sconst 0\<rparr>,
         [\<lparr>id_key = 0, xp = 0, strength = 5\<rparr>, \<lparr>id_key = 1, xp = 1, strength = 7\<rparr>])"
proof -
  let ?A = "[\<lparr>id_key = 0, xp = 1, strength = 5\<rparr>, \<lparr>id_key = 1, xp = 1, strength = 7\<rparr>]"
  have h0: "(0::nat) < length ?A" by simp
  have h1: "hunt 0 (\<lparr>uniforms = 0.5 ## 0.9 ## sconst 0, integers = sconst 0\<rparr>, ?A)
              = (\<lparr>uniforms = 0.9 ## sconst 0, integers = sconst 0\<rparr>, ?A)"
    by (simp add: hunt_eq uniform_def)
  have h2: "uniform \<lparr>uniforms = 0.9 ## sconst 0, integers = sconst 0\<rparr>
              = (0.9, \<lparr>uniforms = sconst 0, integers = sconst 0\<rparr>)"
    by (simp add: uniform_def)
  have h3: "(0.9 :: real) > 0.85" by simp
  have h4: "choice ?A \<lparr>uniforms = sconst 0, integers = sconst 0\<rparr>
              = Inr (0, \<lparr>uniforms = sconst 0, integers = sconst 0\<rparr>)"
    by (simp add: choice_def)
  from self_contest [OF h0 h1 h2 h3 h4] h0 h3 show ?thesis
    by simp
qed

subsection \<open>Construction\<close>

lemma Warrior_init_eq:
  "Warrior_init key g =
     (\<lparr>id_key = key, xp = 1, strength = 1 + int (shd (integers g)) mod 9\<rparr>,
      g\<lparr>integers := stl (integers g)\<rparr>)"
  by (simp add: Warrior_init_def randint_def)

lemma add_warriors_acc:
  "\<exists>g' ws. add_warriors keys (g, acc) = (g', acc @ ws) \<and> map id_key ws = keys
      \<and> (\<forall>w\<in>set ws. xp w = 1 \<and> 1 \<le> strength w \<and> strength w \<le> 9)"
proof (induction keys arbitrary: g acc)
  case Nil
  show ?case by simp
next
  case (Cons i rest)
  let ?w = "\<lparr>id_key = i, xp = 1, strength = 1 + int (shd (integers g)) mod 9\<rparr>"
  let ?g = "g\<lparr>integers := stl (integers g)\<rparr>"
  from Cons.IH [of ?g "acc @ [?w]"] obtain g' ws where
    r: "add_warriors rest (?g, acc @ [?w]) = (g', (acc @ [?w]) @ ws)"
    and k: "map id_key ws = rest"
    and b: "\<forall>w\<in>set ws. xp w = 1 \<and> 1 \<le> strength w \<and> strength w \<le> 9"
    by blast
  have s: "1 \<le> strength ?w \<and> strength ?w \<le> 9"
    by simp
  have a1: "add_warriors (i # rest) (g, acc) = (g', acc @ (?w # ws))"
    using r by (simp add: Warrior_init_eq)
  have a2: "map id_key (?w # ws) = i # rest"
    using k by simp
  have a3: "\<forall>w\<in>set (?w # ws). xp w = 1 \<and> 1 \<le> strength w \<and> strength w \<le> 9"
    using b s by simp
  from a1 a2 a3 show ?case
    by (intro exI [of _ g'] exI [of _ "?w # ws"] conjI)
qed

lemma Village_init_population:
  "\<exists>g' agents. Village_init (PyInt n) g = Inr (g', \<lparr>num_agents = PyInt n, schedule = agents\<rparr>)
      \<and> map id_key agents = [0..n - 1] \<and> length agents = nat n
      \<and> (\<forall>w\<in>set agents. xp w = 1 \<and> 1 \<le> strength w \<and> strength w \<le> 9)"
proof -
  from add_warriors_acc [of "[0..n - 1]" g "[]"] obtain g' ws where
    r: "add_warriors [0..n - 1] (g, []) = (g', ws)"
    and k: "map id_key ws = [0..n - 1]"
    and b: "\<forall>w\<in>set ws. xp w = 1 \<and> 1 \<le> strength w \<and> strength w \<le> 9"
    by auto
  have "length (map id_key ws) = nat n"
    unfolding k by simp
  then have "length ws = nat n" by simp
  moreover have "Village_init (PyInt n) g = Inr (g', \<lparr>num_agents = PyInt n, schedule = ws\<rparr>)"
    using r by (simp add: Village_init_def range_py_def)
  ultimately show ?thesis using k b
    by (intro exI [of _ g'] exI [of _ ws] conjI)
qed

text \<open>
  Claim C5. Right after \<^verbatim>\<open>Village(n)\<close> for an integer \<open>n\<close>, construction has
  returned normally, the population has \<open>n\<close> agents (none for \<open>n \<le> 0\<close>)
  whose keys are \<open>0, ..., n - 1\<close> in creation order, and every agent has xp 1
  and a strength between 1 and 9.
\<close>

theorem initial_population:
  "\<exists>g' agents. Village_init (PyInt n) g = Inr (g', \<lparr>num_agents = PyInt n, schedule = agents\<rparr>)
      \<and> map id_key agents = [0..n - 1] \<and> length agents = nat n
      \<and> (\<forall>w\<in>set agents. xp w = 1 \<and> 1 \<le> strength w \<and> strength w \<le> 9)"
  by (rule Village_init_population)

theorem initial_population_witness:
  "Village_init (PyInt 2) \<lparr>uniforms = sconst 0, integers = 3 ## 13 ## sconst 0\<rparr>
     = Inr (\<lparr>uniforms = sconst 0, integers = sconst 0\<rparr>,
            \<lparr>num_agents = PyInt 2,
             schedule = [\<lparr>id_key = 0, xp = 1, strength = 4\<rparr>, \<lparr>id_key = 1, xp = 1, strength = 5\<rparr>]\<rparr>)"
  using initial_population [of 2 "\<lparr>uniforms = sconst 0, integers = 3 ## 13 ## sconst 0\<rparr>"]
  by (simp add: Village_init_def range_py_def Warrior_init_eq upto.simps)

text \<open>
  Claim C4, as the code has it. \<^verbatim>\<open>Village.__init__\<close> checks nothing itself.
  A float \<open>n\<close> fails in \<^verbatim>\<open>range(n)\<close> with a TypeError, before any agent
  exists. A negative integer \<open>n\<close> raises nothing: the range is empty and
  the result is a village with an empty population.
\<close>

theorem invalid_population_size:
  "Village_init (PyFloat x) g = Inl TypeError
   \<and> (n < 0 \<longrightarrow> Village_init (PyInt n) g = Inr (g, \<lparr>num_agents = PyInt n, schedule = []\<rparr>))"
  by (simp add: Village_init_def range_py_def upto.simps)

theorem invalid_population_size_witness:
  "(- 3 :: int) < 0
   \<and> Village_init (PyFloat 2.5) \<lparr>uniforms = sconst 0, integers = sconst 0\<rparr> = Inl TypeError
   \<and> Village_init (PyInt (- 3)) \<lparr>uniforms = sconst 0, integers = sconst 0\<rparr>
       = Inr (\<lparr>uniforms = sconst 0, integers = sconst 0\<rparr>,
              \<lparr>num_agents = PyInt (- 3), schedule = []\<rparr>)"
  using invalid_population_size [of "2.5" "\<lparr>uniforms = sconst 0, integers = sconst 0\<rparr>" "- 3"]
  by simp

text \<open>The claim as stated fails: for \<open>n = -1\<close> construction returns a village,
  not an error.\<close>

theorem negative_size_counterexample:
  "Village_init (PyInt (- 1)) \<lparr>uniforms = sconst 0, integers = sconst 7\<rparr>
     = Inr (\<lparr>uniforms = sconst 0, integers = sconst 7\<rparr>,
            \<lparr>num_agents = PyInt (- 1), schedule = []\<rparr>)"
  by (simp add: Village_init_def range_py_def upto.simps)

subsection \<open>What a turn can change\<close>

lemma Warrior_step_eq:
  assumes "hunt self (g, agents) = (g1, agents1)" and "uniform g1 = (v, g2)"
      and "choice agents1 g2 = Inr (other, g3)"
  shows "Warrior_step self (g, agents) =
           Inr (if v > 0.85 then g3 else g2,
                if v > 0.85
                then if strength (agents1 ! self) < strength (agents1 ! other)
                     then xp_add other 1 (xp_sub self 2 agents1)
                     else xp_add self 1 (xp_sub other 2 agents1)
                else agents1)"
  using assms by (simp add: Warrior_step_def wrestle_def)

lemma hunt_agents:
  assumes "hunt self (g, agents) = (g1, agents1)"
  shows "agents1 = agents \<or> agents1 = strength_add self 3 (xp_add self 2 agents)"
  using assms by (auto simp: hunt_eq split: if_splits)

text \<open>
  Claim C7. In every activation of the agent at position \<open>self\<close>, with \<open>other\<close>
  the position that the opponent pick yields: the turn returns normally, the
  population keeps its size, every key stays as it was, no strength other
  than the acting agent's changes (so the opponent's strength does not,
  when the opponent is another agent), and an agent that is neither the
  acting agent nor the opponent is left exactly as it was; when no wrestle
  fires, every agent but the acting one is left exactly as it was.
\<close>

theorem turn_frame:
  assumes "self < length agents"
      and "hunt self (g, agents) = (g1, agents1)" and "uniform g1 = (v, g2)"
      and "choice agents1 g2 = Inr (other, g3)"
  shows "\<exists>g' agents'. Warrior_step self (g, agents) = Inr (g', agents')
     \<and> length agents' = length agents
     \<and> (\<forall>k<length agents.
           id_key (agents' ! k) = id_key (agents ! k)
         \<and> (k \<noteq> self \<longrightarrow> strength (agents' ! k) = strength (agents ! k))
         \<and> (k \<noteq> self \<and> k \<noteq> other \<longrightarrow> agents' ! k = agents ! k)
         \<and> (k \<noteq> self \<and> \<not> v > 0.85 \<longrightarrow> agents' ! k = agents ! k))"
proof -
  have len: "length agents1 = length agents"
    using assms(2) by (rule hunt_length)
  from hunt_agents [OF assms(2)] len show ?thesis
    unfolding Warrior_step_eq [OF assms(2) assms(3) assms(4)]
    by (auto simp: nth_xp_add nth_xp_sub nth_strength_add)
qed


theorem turn_frame_witness:
  "(0::nat) < length [\<lparr>id_key = 0, xp = 1, strength = 5\<rparr>, \<lparr>id_key = 1, xp = 1, strength = 9\<rparr>,
                      \<lparr>id_key = 2, xp = 1, strength = 2\<rparr>]
   \<and> Warrior_step 0 (\<lparr>uniforms = 0.9 ## 0.9 ## sconst 0, integers = 1 ## sconst 0\<rparr>,
         [\<lparr>id_key = 0, xp = 1, strength = 5\<rparr>, \<lparr>id_key = 1, xp = 1, strength = 9\<rparr>,
          \<lparr>id_key = 2, xp = 1, strength = 2\<rparr>])
     = Inr (\<lparr>uniforms = sconst 0, integers = sconst 0\<rparr>,
         [\<lparr>id_key = 0, xp = 1, strength = 8\<rparr>, \<lparr>id_key = 1, xp = 2, strength = 9\<rparr>,
          \<lparr>id_key = 2, xp = 1, strength = 2\<rparr>])"
proof -
  let ?A = "[\<lparr>id_key = 0, xp = 1, strength = 5\<rparr>, \<lparr>id_key = 1, xp = 1, strength = 9\<rparr>,
             \<lparr>id_key = 2, xp = 1, strength = 2\<rparr>]"
  let ?A1 = "[\<lparr>id_key = 0, xp = 3, strength = 8\<rparr>, \<lparr>id_key = 1, xp = 1, strength = 9\<rparr>,
              \<lparr>id_key = 2, xp = 1, strength = 2\<rparr>]"
  have h0: "(0::nat) < length ?A" by simp
  have h1: "hunt 0 (\<lparr>uniforms = 0.9 ## 0.9 ## sconst 0, integers = 1 ## sconst 0\<rparr>, ?A)
              = (\<lparr>uniforms = 0.9 ## sconst 0, integers = 1 ## sconst 0\<rparr>, ?A1)"
    by (simp add: hunt_eq uniform_def xp_add_def strength_add_def)
  have h2: "uniform \<lparr>uniforms = 0.9 ## sconst 0, integers = 1 ## sconst 0\<rparr>
              = (0.9, \<lparr>uniforms = sconst 0, integers = 1 ## sconst 0\<rparr>)"
    by (simp add: uniform_def)
  have h3: "choice ?A1 \<lparr>uniforms = sconst 0, integers = 1 ## sconst 0\<rparr>
              = Inr (1, \<lparr>uniforms = sconst 0, integers = sconst 0\<rparr>)"
    by (simp add: choice_def)
  have e: "Warrior_step 0 (\<lparr>uniforms = 0.9 ## 0.9 ## sconst 0, integers = 1 ## sconst 0\<rparr>, ?A)
     = Inr (\<lparr>uniforms = sconst 0, integers = sconst 0\<rparr>,
         [\<lparr>id_key = 0, xp = 1, strength = 8\<rparr>, \<lparr>id_key = 1, xp = 2, strength = 9\<rparr>,
          \<lparr>id_key = 2, xp = 1, strength = 2\<rparr>])"
    unfolding Warrior_step_eq [OF h1 h2 h3] by (simp add: xp_add_def xp_sub_def)
  from turn_frame [OF h0 h1 h2 h3] e h0 show ?thesis
    by simp
qed

subsection \<open>The sum of xp\<close>

lemma sum_list_map_update:
  fixes f :: "'a \<Rightarrow> real"
  shows "i < length xs \<Longrightarrow>
         sum_list (map f (xs[i := y])) = sum_list (map f xs) - f (xs ! i) + f y"
proof (induction xs arbitrary: i)
  case Nil
  then show ?case by simp
next
  case (Cons x xs)
  then show ?case by (cases i) simp_all
qed

lemma total_xp_xp_add:
  "i < length agents \<Longrightarrow> total_xp (xp_add i d agents) = total_xp agents + d"
  by (simp add: total_xp_def xp_add_def sum_list_map_update)

lemma total_xp_xp_sub:
  "i < length agents \<Longrightarrow> total_xp (xp_sub i d agents) = total_xp agents - d"
  by (simp add: total_xp_def xp_sub_def sum_list_map_update)

lemma total_xp_strength_add:
  "total_xp (strength_add i d agents) = total_xp agents"
  by (cases "i < length agents")
    (simp_all add: total_xp_def strength_add_def sum_list_map_update list_update_beyond)

text \<open>
  Claim C10. In every activation, with \<open>agents1\<close> the store as the hunt left
  it: the turn returns normally; when the wrestle fires (\<open>v > 0.85\<close>) the sum
  of xp over the population after the turn is the sum over \<open>agents1\<close> less
  exactly 1, whoever wins and also when the pick is the acting agent itself;
  when neither the hunt succeeds nor the wrestle fires the sum is what it was
  before the turn. Over the whole turn the sum changes by 2 for a successful
  hunt and by -1 for a wrestle.
\<close>

theorem wrestle_total_xp:
  assumes "self < length agents"
      and "uniform g = (u, g1)" and "hunt self (g, agents) = (g1, agents1)"
      and "uniform g1 = (v, g2)"
  shows "\<exists>g' agents'. Warrior_step self (g, agents) = Inr (g', agents')
     \<and> (v > 0.85 \<longrightarrow> total_xp agents' = total_xp agents1 - 1)
     \<and> (\<not> v > 0.85 \<and> \<not> u \<ge> 0.8 \<longrightarrow> total_xp agents' = total_xp agents)
     \<and> total_xp agents' =
         total_xp agents + (if u \<ge> 0.8 then 2 else 0) - (if v > 0.85 then 1 else 0)"
proof -
  have len: "length agents1 = length agents"
    using assms(3) by (rule hunt_length)
  then have ne: "agents1 \<noteq> []" using assms(1) by auto
  have s: "self < length agents1" using assms(1) len by simp
  let ?other = "shd (integers g2) mod length agents1"
  have o: "?other < length agents1" using ne by simp
  have a1: "agents1 = (if u \<ge> 0.8 then strength_add self 3 (xp_add self 2 agents) else agents)"
    using assms(2) assms(3) by (simp add: hunt_eq)
  have t1: "total_xp agents1 = total_xp agents + (if u \<ge> 0.8 then 2 else 0)"
    using assms(1) by (simp add: a1 total_xp_strength_add total_xp_xp_add)
  show ?thesis
    unfolding Warrior_step_eq [OF assms(3) assms(4) choice_nonempty [OF ne]]
    using s o t1
    by (simp add: total_xp_xp_add total_xp_xp_sub)
qed


theorem wrestle_total_xp_witness:
  "(0::nat) < length [\<lparr>id_key = 0, xp = 1, strength = 5\<rparr>, \<lparr>id_key = 1, xp = 1, strength = 9\<rparr>]
   \<and> (0.9::real) > 0.85
   \<and> (\<exists>g' agents'.
        Warrior_step 0 (\<lparr>uniforms = 0.5 ## 0.9 ## sconst 0, integers = 1 ## sconst 0\<rparr>,
          [\<lparr>id_key = 0, xp = 1, strength = 5\<rparr>, \<lparr>id_key = 1, xp = 1, strength = 9\<rparr>])
          = Inr (g', agents')
        \<and> total_xp agents' = 1)"
proof -
  let ?A = "[\<lparr>id_key = 0, xp = 1, strength = 5\<rparr>, \<lparr>id_key = 1, xp = 1, strength = 9\<rparr>]"
  have h0: "(0::nat) < length ?A" by simp
  have h1: "uniform \<lparr>uniforms = 0.5 ## 0.9 ## sconst 0, integers = 1 ## sconst 0\<rparr>
              = (0.5, \<lparr>uniforms = 0.9 ## sconst 0, integers = 1 ## sconst 0\<rparr>)"
    by (simp add: uniform_def)
  have h2: "hunt 0 (\<lparr>uniforms = 0.5 ## 0.9 ## sconst 0, integers = 1 ## sconst 0\<rparr>, ?A)
              = (\<lparr>uniforms = 0.9 ## sconst 0, integers = 1 ## sconst 0\<rparr>, ?A)"
    by (simp add: hunt_eq uniform_def)
  have h3: "uniform \<lparr>uniforms = 0.9 ## sconst 0, integers = 1 ## sconst 0\<rparr>
              = (0.9, \<lparr>uniforms = sconst 0, integers = 1 ## sconst 0\<rparr>)"
    by (simp add: uniform_def)
  have t: "total_xp ?A = 2" by (simp add: total_xp_def)
  from wrestle_total_xp [OF h0 h1 h2 h3] obtain g' agents' where
    "Warrior_step 0 (\<lparr>uniforms = 0.5 ## 0.9 ## sconst 0, integers = 1 ## sconst 0\<rparr>, ?A)
       = Inr (g', agents')"
    and "total_xp agents' = total_xp ?A - 1"
    by auto
  with t h0 show ?thesis by simp
qed

subsection \<open>The activation order\<close>

lemma shuffle_loop_mset:
  "i \<le> length x - 1 \<Longrightarrow> mset (fst (shuffle_loop i x g)) = mset x"
proof (induction i arbitrary: x g)
  case 0
  show ?case by simp
next
  case (Suc i)
  let ?j = "shd (integers g) mod Suc (Suc i)"
  let ?x = "x[Suc i := x ! ?j, ?j := x ! Suc i]"
  have i: "Suc i < length x" using Suc.prems by simp
  have "?j < Suc (Suc i)" by simp
  with i have j: "?j < length x" by linarith
  have "mset ?x = mset x"
    using j i by (rule mset_swap)
  moreover have "mset (fst (shuffle_loop i ?x (g\<lparr>integers := stl (integers g)\<rparr>))) = mset ?x"
    using Suc.prems by (intro Suc.IH) simp
  ultimately show ?case
    by (simp add: randbelow_def)
qed

lemma shuffle_mset: "mset (fst (shuffle x g)) = mset x"
  by (simp add: shuffle_def shuffle_loop_mset)

lemma activation_order_mset:
  assumes "activation_order (g, agents) = (order, g1)"
  shows "mset order = mset [0..<length agents]"
  using assms shuffle_mset [of "[0..<length agents]" g]
  by (simp add: activation_order_def)

lemma activation_order_set:
  assumes "activation_order (g, agents) = (order, g1)"
  shows "set order = {0..<length agents}"
  using mset_eq_setD [OF activation_order_mset [OF assms]] by simp

lemma activate_chain:
  "\<forall>k\<in>set ks. k < length agents \<Longrightarrow>
   \<exists>sts. length sts = Suc (length ks) \<and> sts ! 0 = (g, agents)
      \<and> (\<forall>i<length ks. Warrior_step (ks ! i) (sts ! i) = Inr (sts ! Suc i))
      \<and> (\<forall>i\<le>length ks. length (snd (sts ! i)) = length agents)
      \<and> activate ks (g, agents) = Inr (sts ! length ks)"
proof (induction ks arbitrary: g agents)
  case Nil
  show ?case by (rule exI [of _ "[(g, agents)]"]) simp
next
  case (Cons k ks)
  then have "agents \<noteq> []" by auto
  from Warrior_step_total [OF this, of k g] obtain g1 agents1 where
    s: "Warrior_step k (g, agents) = Inr (g1, agents1)" and l: "length agents1 = length agents"
    by blast
  from Cons.prems l have "\<forall>k\<in>set ks. k < length agents1" by simp
  from Cons.IH [OF this, of g1] obtain sts where
    n: "length sts = Suc (length ks)" and z: "sts ! 0 = (g1, agents1)"
    and c: "\<forall>i<length ks. Warrior_step (ks ! i) (sts ! i) = Inr (sts ! Suc i)"
    and e: "\<forall>i\<le>length ks. length (snd (sts ! i)) = length agents1"
    and a: "activate ks (g1, agents1) = Inr (sts ! length ks)"
    by blast
  let ?sts = "(g, agents) # sts"
  have c': "\<forall>i<length (k # ks). Warrior_step ((k # ks) ! i) (?sts ! i) = Inr (?sts ! Suc i)"
  proof (intro allI impI)
    fix i assume "i < length (k # ks)"
    then show "Warrior_step ((k # ks) ! i) (?sts ! i) = Inr (?sts ! Suc i)"
      using s z c by (cases i) simp_all
  qed
  have e': "\<forall>i\<le>length (k # ks). length (snd (?sts ! i)) = length agents"
  proof (intro allI impI)
    fix i assume "i \<le> length (k # ks)"
    then show "length (snd (?sts ! i)) = length agents"
      using e l by (cases i) simp_all
  qed
  have a': "activate (k # ks) (g, agents) = Inr (?sts ! length (k # ks))"
    using s a by simp
  from n c' e' a' show ?case
    by (intro exI [of _ ?sts] conjI) simp_all
qed

lemma Village_step_chain:
  assumes "activation_order (g, schedule v) = (order, g1)"
  shows "\<exists>sts. length sts = Suc (length order) \<and> sts ! 0 = (g1, schedule v)
      \<and> (\<forall>i<length order. Warrior_step (order ! i) (sts ! i) = Inr (sts ! Suc i))
      \<and> (\<forall>i\<le>length order. length (snd (sts ! i)) = length (schedule v))
      \<and> Village_step (g, v) =
          Inr (fst (sts ! length order), v\<lparr>schedule := snd (sts ! length order)\<rparr>)"
proof -
  have "\<forall>k\<in>set order. k < length (schedule v)"
    using activation_order_set [OF assms] by simp
  from activate_chain [OF this, of g1] obtain sts where
    n: "length sts = Suc (length order)" and z: "sts ! 0 = (g1, schedule v)"
    and c: "\<forall>i<length order. Warrior_step (order ! i) (sts ! i) = Inr (sts ! Suc i)"
    and e: "\<forall>i\<le>length order. length (snd (sts ! i)) = length (schedule v)"
    and a: "activate order (g1, schedule v) = Inr (sts ! length order)"
    by blast
  have "Village_step (g, v) =
          Inr (fst (sts ! length order), v\<lparr>schedule := snd (sts ! length order)\<rparr>)"
    using assms a
    by (cases "sts ! length order") (simp add: Village_step_def RandomActivation_step_def)
  with n z c e show ?thesis
    by (intro exI [of _ sts] conjI)
qed

lemma Village_step_total:
  assumes "activation_order (g, schedule v) = (order, g1)"
  shows "\<exists>g' agents'. length agents' = length (schedule v)
           \<and> Village_step (g, v) = Inr (g', v\<lparr>schedule := agents'\<rparr>)"
proof -
  from Village_step_chain [OF assms] obtain sts where
    e: "\<forall>i\<le>length order. length (snd (sts ! i)) = length (schedule v)"
    and s: "Village_step (g, v) =
          Inr (fst (sts ! length order), v\<lparr>schedule := snd (sts ! length order)\<rparr>)"
    by blast
  from e have "length (snd (sts ! length order)) = length (schedule v)" by simp
  with s show ?thesis by blast
qed




subsection \<open>Strength over a run\<close>

lemma Warrior_step_strength:
  assumes "Warrior_step self (g, agents) = Inr (g', agents')"
  shows "length agents' = length agents
     \<and> (\<forall>k<length agents.
           strength (agents ! k) \<le> strength (agents' ! k)
         \<and> (strength (agents' ! k) \<noteq> strength (agents ! k) \<longrightarrow>
              k = self \<and> strength (agents' ! k) = strength (agents ! k) + 3))"
proof -
  obtain g1 agents1 where h: "hunt self (g, agents) = (g1, agents1)"
    by (cases "hunt self (g, agents)")
  have len: "length agents1 = length agents"
    using h by (rule hunt_length)
  obtain v g2 where u: "uniform g1 = (v, g2)" by (cases "uniform g1")
  have h1: "\<forall>k<length agents.
           strength (agents ! k) \<le> strength (agents1 ! k)
         \<and> (strength (agents1 ! k) \<noteq> strength (agents ! k) \<longrightarrow>
              k = self \<and> strength (agents1 ! k) = strength (agents ! k) + 3)"
    using hunt_agents [OF h] by (auto simp: nth_xp_add nth_strength_add split: if_splits)
  have w: "wrestle self (g1, agents1) = Inr (g', agents')"
    using assms h by (simp add: Warrior_step_def)
  have "length agents' = length agents1
     \<and> (\<forall>k<length agents1. strength (agents' ! k) = strength (agents1 ! k))"
  proof (cases "v > 0.85")
    case False
    from wrestle_idle [OF u False, of self agents1] w show ?thesis by simp
  next
    case True
    with w u obtain other g3 where "choice agents1 g2 = Inr (other, g3)"
      by (auto simp: wrestle_def split: sum.splits)
    from wrestle_fires [OF u True this, of self] w show ?thesis
      by (auto simp: nth_xp_add nth_xp_sub split: if_splits)
  qed
  with h1 len show ?thesis by simp
qed

lemma activate_strength:
  "activate ks (g, agents) = Inr (g', agents') \<Longrightarrow>
   length agents' = length agents
     \<and> (\<forall>k<length agents. strength (agents ! k) \<le> strength (agents' ! k))"
proof (induction ks arbitrary: g agents)
  case Nil
  then show ?case by simp
next
  case (Cons a ks)
  from Cons.prems obtain g1 agents1 where
    s: "Warrior_step a (g, agents) = Inr (g1, agents1)"
    and r: "activate ks (g1, agents1) = Inr (g', agents')"
    by (auto split: sum.splits)
  from Warrior_step_strength [OF s] Cons.IH [OF r] show ?case
    by fastforce
qed

lemma Village_step_strength:
  assumes "Village_step (g, v) = Inr (g', v')"
  shows "length (schedule v') = length (schedule v)
     \<and> (\<forall>k<length (schedule v). strength (schedule v ! k) \<le> strength (schedule v' ! k))"
proof -
  obtain order g1 where o: "activation_order (g, schedule v) = (order, g1)"
    by (cases "activation_order (g, schedule v)")
  from assms o obtain agents' where
    "activate order (g1, schedule v) = Inr (g', agents')" and "v' = v\<lparr>schedule := agents'\<rparr>"
    by (auto simp: Village_step_def RandomActivation_step_def split: sum.splits)
  with activate_strength [of order g1 "schedule v" g' agents'] show ?thesis by simp
qed

lemma run_strength:
  "\<exists>g' v'. run T (g, v) = Inr (g', v')
     \<and> length (schedule v') = length (schedule v)
     \<and> (\<forall>k<length (schedule v). strength (schedule v ! k) \<le> strength (schedule v' ! k))"
proof (induction T arbitrary: g v)
  case 0
  show ?case by simp
next
  case (Suc T)
  obtain order g1 where o: "activation_order (g, schedule v) = (order, g1)"
    by (cases "activation_order (g, schedule v)")
  from Village_step_total [OF o] obtain g2 v2 where
    s: "Village_step (g, v) = Inr (g2, v2)" by blast
  from Suc.IH [of g2 v2] obtain g' v' where
    r: "run T (g2, v2) = Inr (g', v')"
    and l: "length (schedule v') = length (schedule v2)"
    and m: "\<forall>k<length (schedule v2). strength (schedule v2 ! k) \<le> strength (schedule v' ! k)"
    by blast
  have "run (Suc T) (g, v) = Inr (g', v')" using s r by simp
  moreover have "length (schedule v') = length (schedule v)"
    using l Village_step_strength [OF s] by simp
  moreover have "\<forall>k<length (schedule v). strength (schedule v ! k) \<le> strength (schedule v' ! k)"
    using m Village_step_strength [OF s] by fastforce
  ultimately show ?case by blast
qed


lemma simulate_strength:
  "\<exists>r. simulate (PyInt n) T g = Inr r \<and> length r = nat n \<and> (\<forall>p\<in>set r. 1 \<le> snd p)"
proof -
  from Village_init_population [of n g] obtain g0 agents where
    i: "Village_init (PyInt n) g = Inr (g0, \<lparr>num_agents = PyInt n, schedule = agents\<rparr>)"
    and l: "length agents = nat n"
    and b: "\<forall>w\<in>set agents. 1 \<le> strength w"
    by blast
  let ?v = "\<lparr>num_agents = PyInt n, schedule = agents\<rparr>"
  from run_strength [of T g0 ?v] obtain g' v' where
    r: "run T (g0, ?v) = Inr (g', v')"
    and l': "length (schedule v') = length agents"
    and m: "\<forall>k<length agents. strength (agents ! k) \<le> strength (schedule v' ! k)"
    by auto
  have s: "simulate (PyInt n) T g = Inr (readout v')"
    using i r by (simp add: simulate_def)
  have "\<forall>p\<in>set (readout v'). 1 \<le> snd p"
  proof
    fix p assume "p \<in> set (readout v')"
    then obtain k where k: "k < length (schedule v')" and p: "p = (xp (schedule v' ! k), strength (schedule v' ! k))"
      by (auto simp: readout_def in_set_conv_nth)
    from k l' have "k < length agents" by simp
    with b m have "1 \<le> strength (agents ! k)" "strength (agents ! k) \<le> strength (schedule v' ! k)"
      by simp_all
    with p show "1 \<le> snd p" by simp
  qed
  moreover have "length (readout v') = nat n"
    using l l' by (simp add: readout_def)
  ultimately show ?thesis using s by blast
qed

text \<open>
  Claim C8. Strength never decreases. In one activation every agent's
  strength is at least what it was, and where it differs it is the acting
  agent's, larger by exactly 3; the same bound holds over any sequence of
  activations and over any number of ticks, which always run to the end with
  the population at its size. A population built by \<^verbatim>\<open>Village(n)\<close> and run
  for any number of ticks therefore reads out strengths that are all at
  least 1.
\<close>

theorem strength_never_decreases:
  "(Warrior_step self (g, agents) = Inr (g1, agents1) \<longrightarrow>
      length agents1 = length agents
      \<and> (\<forall>k<length agents.
            strength (agents ! k) \<le> strength (agents1 ! k)
          \<and> (strength (agents1 ! k) \<noteq> strength (agents ! k) \<longrightarrow>
               k = self \<and> strength (agents1 ! k) = strength (agents ! k) + 3)))
   \<and> (activate ks (g, agents) = Inr (g2, agents2) \<longrightarrow>
      length agents2 = length agents
      \<and> (\<forall>k<length agents. strength (agents ! k) \<le> strength (agents2 ! k)))
   \<and> (\<exists>g3 v3. run T (g, v) = Inr (g3, v3)
      \<and> length (schedule v3) = length (schedule v)
      \<and> (\<forall>k<length (schedule v). strength (schedule v ! k) \<le> strength (schedule v3 ! k)))
   \<and> (\<exists>r. simulate (PyInt n) T g = Inr r \<and> length r = nat n \<and> (\<forall>p\<in>set r. 1 \<le> snd p))"
  using Warrior_step_strength [of self g agents g1 agents1]
    activate_strength [of ks g agents g2 agents2]
    run_strength [of T g v] simulate_strength [of n T g]
  by blast

lemmas sim_defs = simulate_def Village_init_def range_py_def upto.simps Warrior_init_eq
  Village_step_def RandomActivation_step_def activation_order_def shuffle_def randbelow_def
  Warrior_step_def wrestle_def hunt_eq uniform_def choice_def
  xp_add_def xp_sub_def strength_add_def readout_def

theorem strength_never_decreases_witness:
  "Warrior_step 0 (\<lparr>uniforms = 0.9 ## sconst 0, integers = sconst 0\<rparr>,
       [\<lparr>id_key = 0, xp = 1, strength = 4\<rparr>])
     = Inr (\<lparr>uniforms = sconst 0, integers = sconst 0\<rparr>, [\<lparr>id_key = 0, xp = 3, strength = 7\<rparr>])
   \<and> activate [0, 0] (\<lparr>uniforms = 0.9 ## 0 ## 0.9 ## sconst 0, integers = sconst 0\<rparr>,
       [\<lparr>id_key = 0, xp = 1, strength = 4\<rparr>])
     = Inr (\<lparr>uniforms = sconst 0, integers = sconst 0\<rparr>, [\<lparr>id_key = 0, xp = 5, strength = 10\<rparr>])
   \<and> simulate (PyInt 1) 1 \<lparr>uniforms = 0.9 ## sconst 0, integers = 3 ## sconst 0\<rparr> = Inr [(3, 7)]
   \<and> (4::int) \<le> 7 \<and> (4::int) \<le> 10 \<and> (1::int) \<le> 7"
proof -
  have e1: "Warrior_step 0 (\<lparr>uniforms = 0.9 ## sconst 0, integers = sconst 0\<rparr>,
       [\<lparr>id_key = 0, xp = 1, strength = 4\<rparr>])
     = Inr (\<lparr>uniforms = sconst 0, integers = sconst 0\<rparr>, [\<lparr>id_key = 0, xp = 3, strength = 7\<rparr>])"
    by (simp add: sim_defs)
  have e2: "activate [0, 0] (\<lparr>uniforms = 0.9 ## 0 ## 0.9 ## sconst 0, integers = sconst 0\<rparr>,
       [\<lparr>id_key = 0, xp = 1, strength = 4\<rparr>])
     = Inr (\<lparr>uniforms = sconst 0, integers = sconst 0\<rparr>, [\<lparr>id_key = 0, xp = 5, strength = 10\<rparr>])"
    by (simp add: sim_defs)
  have e3: "simulate (PyInt 1) 1 \<lparr>uniforms = 0.9 ## sconst 0, integers = 3 ## sconst 0\<rparr>
     = Inr [(3, 7)]"
    by (simp add: sim_defs)
  from strength_never_decreases [of 0 "\<lparr>uniforms = 0.9 ## sconst 0, integers = sconst 0\<rparr>"
      "[\<lparr>id_key = 0, xp = 1, strength = 4\<rparr>]" "\<lparr>uniforms = sconst 0, integers = sconst 0\<rparr>"
      "[\<lparr>id_key = 0, xp = 3, strength = 7\<rparr>]"] e1 e2 e3
  show ?thesis by simp
qed

end
